theory Spec2Isabelle
  imports Main "HOL-Library.Sublist"
begin

section \<open>Python strings\<close>

text \<open>
  A Python \<open>str\<close> is a sequence of Unicode code points, so \<open>len\<close> counts code points
  and the byte-order mark U+FEFF is one character. A string is modelled as the list of
  its code points; \<open>u\<close> turns an ASCII literal into such a list.
\<close>

type_synonym pystr = "nat list"

definition u :: "string \<Rightarrow> pystr" where
  "u s = map of_char s"

definition BOM :: nat where
  "BOM = 0xFEFF"

definition NL :: nat where
  "NL = 10"

text \<open>
  \<open>str.strip()\<close> without an argument removes leading and trailing whitespace, which
  for \<open>str\<close> is every character with \<open>isspace()\<close>: the ASCII controls 9..13 and
  28..31, the space, and the Unicode separators listed below.
\<close>

definition is_space :: "nat \<Rightarrow> bool" where
  "is_space c =
     ((9 \<le> c \<and> c \<le> 13) \<or> (28 \<le> c \<and> c \<le> 32) \<or> c = 0x85 \<or> c = 0xA0 \<or> c = 0x1680 \<or>
      (0x2000 \<le> c \<and> c \<le> 0x200A) \<or> c = 0x2028 \<or> c = 0x2029 \<or> c = 0x202F \<or>
      c = 0x205F \<or> c = 0x3000)"

definition lstrip :: "pystr \<Rightarrow> pystr" where
  "lstrip s = dropWhile is_space s"

definition rstrip :: "pystr \<Rightarrow> pystr" where
  "rstrip s = rev (dropWhile is_space (rev s))"

definition strip :: "pystr \<Rightarrow> pystr" where
  "strip s = rstrip (lstrip s)"

text \<open>\<open>s.startswith(p)\<close> is \<open>prefix p s\<close>; \<open>s[1:]\<close> is \<open>drop 1 s\<close>.\<close>

text \<open>
  \<open>s.find(sub)\<close>: the index of the leftmost occurrence of \<open>sub\<close> in \<open>s\<close>, with
  \<open>None\<close> for Python's \<open>-1\<close>.
\<close>

fun str_find :: "pystr \<Rightarrow> pystr \<Rightarrow> nat option" where
  "str_find sub [] = (if sub = [] then Some 0 else None)"
| "str_find sub (c # cs) =
     (if prefix sub (c # cs) then Some 0 else map_option Suc (str_find sub cs))"

text \<open>
  \<open>s.replace(old, new, 1)\<close>: the leftmost occurrence of \<open>old\<close> is replaced, the rest
  of \<open>s\<close> is kept; without an occurrence \<open>s\<close> is returned as it is.
\<close>

definition replace_first :: "pystr \<Rightarrow> pystr \<Rightarrow> pystr \<Rightarrow> pystr" where
  "replace_first old new s =
     (case str_find old s of
        None \<Rightarrow> s
      | Some i \<Rightarrow> take i s @ new @ drop (i + length old) s)"

text \<open>
  \<open>s.replace(c, '')\<close> for a one-character string \<open>c\<close> deletes every occurrence of
  that character.
\<close>

definition remove_char :: "nat \<Rightarrow> pystr \<Rightarrow> pystr" where
  "remove_char c s = filter (\<lambda>x. x \<noteq> c) s"

text \<open>
  \<open>s.split('\n')\<close>: the pieces between line feeds; the result is never empty, and
  the empty string splits into one empty piece.
\<close>

fun split_nl :: "pystr \<Rightarrow> pystr list" where
  "split_nl [] = [[]]"
| "split_nl (c # cs) =
     (if c = NL then [] # split_nl cs
      else (case split_nl cs of l # ls \<Rightarrow> (c # l) # ls | [] \<Rightarrow> [[c]]))"

text \<open>\<open>sep.join(parts)\<close>.\<close>

fun join :: "pystr \<Rightarrow> pystr list \<Rightarrow> pystr" where
  "join sep [] = []"
| "join sep [x] = x"
| "join sep (x # y # ys) = x @ sep @ join sep (y # ys)"

text \<open>\<open>str(n)\<close> for a non-negative integer: its decimal digits.\<close>

fun str_of_nat :: "nat \<Rightarrow> pystr" where
  "str_of_nat n = (if n < 10 then [48 + n] else str_of_nat (n div 10) @ [48 + n mod 10])"

declare str_of_nat.simps [simp del]

text \<open>The number that a string of decimal digits denotes, \<open>int(s)\<close>.\<close>

definition int_of_str :: "pystr \<Rightarrow> nat" where
  "int_of_str s = foldl (\<lambda>a d. 10 * a + (d - 48)) 0 s"

section \<open>The fragment of \<open>re\<close> that the classifier uses\<close>

text \<open>
  The five patterns are sequences of anchors and of character classes, single or
  repeated. \<open>re_run\<close> is a backtracking matcher for such sequences; its flag says
  whether the position is the start of the string. Without \<open>re.MULTILINE\<close> the anchor
  \<open>^\<close> holds at the start only, and \<open>$\<close> holds at the end of the string and just
  before a line feed that ends the string. \<open>re.match\<close> matches at the start of the
  string and does not require the pattern to reach its end.
\<close>

datatype item = Bol | Eol | One "nat \<Rightarrow> bool" | Star "nat \<Rightarrow> bool" | Plus "nat \<Rightarrow> bool"

fun re_run :: "item list \<Rightarrow> bool \<Rightarrow> pystr \<Rightarrow> bool" where
  "re_run [] b s = True"
| "re_run (Bol # p) b s = (b \<and> re_run p b s)"
| "re_run (Eol # p) b s = ((s = [] \<or> s = [NL]) \<and> re_run p b s)"
| "re_run (One c # p) b [] = False"
| "re_run (One c # p) b (x # xs) = (c x \<and> re_run p False xs)"
| "re_run (Star c # p) b [] = re_run p b []"
| "re_run (Star c # p) b (x # xs) =
     ((c x \<and> re_run (Star c # p) False xs) \<or> re_run p b (x # xs))"
| "re_run (Plus c # p) b [] = False"
| "re_run (Plus c # p) b (x # xs) = (c x \<and> re_run (Star c # p) False xs)"

definition re_match :: "item list \<Rightarrow> pystr \<Rightarrow> bool" where
  "re_match p s = re_run p True s"

definition rng :: "char \<Rightarrow> char \<Rightarrow> nat \<Rightarrow> bool" where
  "rng lo hi c = (of_char lo \<le> c \<and> c \<le> of_char hi)"

definition chr :: "char \<Rightarrow> nat \<Rightarrow> bool" where
  "chr k c = (c = of_char k)"

section \<open>What the program takes from outside\<close>

text \<open>
  \<open>xml.etree.ElementTree\<close> gives the parsed tree: an element has a tag, a text
  (\<open>None\<close> when there is none) and its child elements in document order. Attributes
  and tails are not read by the program.
\<close>

datatype element = Element (tag_of: pystr) (text_of: "pystr option") (children_of: "element list")

text \<open>The answer of \<open>requests.post\<close>: the status code, and the text at
  \<open>response.json()['content'][0]['text']\<close>, \<open>None\<close> when the payload has no such
  entry (the lookup raises).\<close>

datatype http_response = Response (status_code: nat) (content_text: "pystr option")

text \<open>
  The environment of a request: the parser \<open>ET.fromstring\<close> (\<open>None\<close> for
  \<open>ParseError\<close>), the Unicode decimal digits beyond ASCII that \<open>\d\<close> accepts, the
  variable \<open>CLAUDE_API_KEY\<close>, the translation service behind \<open>requests.post\<close> as a
  function of the texts placed in the prompt (\<open>None\<close> when the call raises), and the
  clock, as the timestamp \<open>datetime.now().strftime('%Y-%m-%d %H:%M:%S')\<close> of the
  report.
\<close>

record env =
  ET_fromstring :: "pystr \<Rightarrow> element option"
  unicode_decimal :: "nat \<Rightarrow> bool"
  CLAUDE_API_KEY :: "pystr option"
  requests_post :: "pystr list \<Rightarrow> http_response option"
  now_text :: pystr

section \<open>The classifier\<close>

definition is_digit :: "env \<Rightarrow> nat \<Rightarrow> bool" where
  "is_digit E c = (rng CHR ''0'' CHR ''9'' c \<or> (128 \<le> c \<and> unicode_decimal E c))"

definition ident_char :: "nat \<Rightarrow> bool" where
  "ident_char c =
     (rng CHR ''a'' CHR ''z'' c \<or> rng CHR ''A'' CHR ''Z'' c \<or> rng CHR ''0'' CHR ''9'' c \<or>
      chr CHR ''.'' c \<or> chr CHR ''_'' c \<or> chr CHR ''-'' c)"

definition code_patterns :: "env \<Rightarrow> item list list" where
  "code_patterns E =
     [ [Bol, One (\<lambda>c. rng CHR ''A'' CHR ''Z'' c \<or> chr CHR ''_'' c),
             Star (\<lambda>c. rng CHR ''A'' CHR ''Z'' c \<or> rng CHR ''0'' CHR ''9'' c \<or> chr CHR ''_'' c), Eol],
       [Bol, Plus (is_digit E), Eol],
       [Bol, Plus ident_char, One (chr CHR ''.''), Plus ident_char, Eol],
       [Bol, One (chr CHR ''#''),
             Plus (\<lambda>c. rng CHR ''0'' CHR ''9'' c \<or> rng CHR ''A'' CHR ''F'' c \<or> rng CHR ''a'' CHR ''f'' c), Eol],
       [Bol, One (chr CHR ''$''),
             One (\<lambda>c. rng CHR ''a'' CHR ''z'' c \<or> rng CHR ''A'' CHR ''Z'' c \<or> chr CHR ''_'' c)] ]"

fun match_any :: "item list list \<Rightarrow> pystr \<Rightarrow> bool" where
  "match_any [] s = False"
| "match_any (p # ps) s = (if re_match p s then True else match_any ps s)"

definition is_code_like :: "env \<Rightarrow> pystr \<Rightarrow> bool" where
  "is_code_like E s =
     (if match_any (code_patterns E) s then True
      else if length s < 2 then True
      else False)"

section \<open>The extractor\<close>

record node =
  path :: pystr
  tag :: pystr
  original_text :: pystr
  element_full_match :: pystr

record translator =
  translatable_texts :: "node list"
  original_structure :: "pystr option"

datatype error = InvalidMuiFormat | NoApiKey | TranslateFailed | ReconstructFailed

definition child_path :: "pystr \<Rightarrow> element \<Rightarrow> pystr" where
  "child_path p child = (if p \<noteq> [] then p @ u ''/'' @ tag_of child else tag_of child)"

definition full_match :: "pystr \<Rightarrow> pystr \<Rightarrow> pystr" where
  "full_match t s = u ''<'' @ t @ u ''>'' @ s @ u ''</'' @ t @ u ''>''"

text \<open>What one visited child appends to \<open>translatable_elements\<close>.\<close>

definition emit :: "env \<Rightarrow> element \<Rightarrow> pystr \<Rightarrow> node list" where
  "emit E child current_path =
     (case text_of child of
        None \<Rightarrow> []
      | Some raw \<Rightarrow>
          if strip raw \<noteq> [] then
            (let s = strip raw in
             if \<not> is_code_like E s then
               [\<lparr>path = current_path, tag = tag_of child, original_text = s,
                 element_full_match = full_match (tag_of child) s\<rparr>]
             else [])
          else [])"

fun extract_texts :: "env \<Rightarrow> element \<Rightarrow> pystr \<Rightarrow> node list" where
  "extract_texts E (Element t x cs) p =
     concat (map (\<lambda>child. emit E child (child_path p child) @
                           extract_texts E child (child_path p child)) cs)"

text \<open>
  In the source the docstring of \<open>parse_mui_file\<close> stands at the indentation of its
  \<open>def\<close> line; it is read here as the first statement of the body, like the
  docstrings of the other methods.
\<close>

definition parse_mui_file ::
  "env \<Rightarrow> translator \<Rightarrow> pystr \<Rightarrow> error + (translator \<times> node list)" where
  "parse_mui_file E self file_content =
     (let c1 = (if prefix [BOM] file_content then drop 1 file_content else file_content);
          c2 = remove_char BOM c1
      in case ET_fromstring E c2 of
           None \<Rightarrow> Inl InvalidMuiFormat
         | Some root \<Rightarrow>
             (let translatable_elements = extract_texts E root []
              in Inr (self\<lparr>original_structure := Some c2,
                            translatable_texts := translatable_elements\<rparr>,
                      translatable_elements)))"

section \<open>The translation call\<close>

definition response_lines :: "pystr \<Rightarrow> pystr list" where
  "response_lines translated_text =
     map strip (filter (\<lambda>line. strip line \<noteq> []) (split_nl (strip translated_text)))"

function backfill :: "pystr list \<Rightarrow> pystr list \<Rightarrow> pystr list" where
  "backfill texts_list translations =
     (if length translations < length texts_list
      then backfill texts_list (translations @ [texts_list ! length translations])
      else translations)"
  by pat_completeness auto
termination
  by (relation "measure (\<lambda>(texts_list, translations). length texts_list - length translations)") auto

declare backfill.simps [simp del]

text \<open>
  The result of \<open>translate_texts\<close> comes with the list of the requests it posted to
  the service, in order.
\<close>

definition translate_texts :: "env \<Rightarrow> node list \<Rightarrow> (error + pystr list) \<times> pystr list list" where
  "translate_texts E texts_to_translate =
     (if CLAUDE_API_KEY E = None \<or> CLAUDE_API_KEY E = Some [] then (Inl NoApiKey, [])
      else
        (let texts_list = map original_text texts_to_translate
         in ((case requests_post E texts_list of
                None \<Rightarrow> Inl TranslateFailed
              | Some response \<Rightarrow>
                  if status_code response \<noteq> 200 then Inl TranslateFailed
                  else (case content_text response of
                          None \<Rightarrow> Inl TranslateFailed
                        | Some t \<Rightarrow>
                            (let translations = response_lines t
                             in Inr (if length translations \<noteq> length texts_list
                                     then backfill texts_list translations
                                     else translations)))),
             [texts_list])))"

section \<open>The reconstructor\<close>

text \<open>The loop over \<open>enumerate(self.translatable_texts)\<close>, from index \<open>i\<close> on.\<close>

fun substitute :: "nat \<Rightarrow> node list \<Rightarrow> pystr list \<Rightarrow> pystr \<Rightarrow> pystr" where
  "substitute i [] translations reconstructed_content = reconstructed_content"
| "substitute i (item # items) translations reconstructed_content =
     substitute (Suc i) items translations
       (if i < length translations
        then replace_first (element_full_match item)
               (full_match (tag item) (translations ! i)) reconstructed_content
        else reconstructed_content)"

definition reconstruct_mui_file :: "env \<Rightarrow> translator \<Rightarrow> pystr list \<Rightarrow> error + pystr" where
  "reconstruct_mui_file E self translations =
     (case original_structure self of
        None \<Rightarrow> Inl ReconstructFailed
      | Some content \<Rightarrow>
          (let reconstructed_content = substitute 0 (translatable_texts self) translations content
           in case ET_fromstring E reconstructed_content of
                None \<Rightarrow> Inl ReconstructFailed
              | Some root \<Rightarrow> Inr reconstructed_content))"

section \<open>The report\<close>

definition report_header :: "env \<Rightarrow> pystr list \<Rightarrow> pystr list" where
  "report_header E translations =
     [u ''=== RAPORT T'' @ [0x141] @ u ''UMACZENIA PLIKU .MUI ==='',
      u ''Data: '' @ now_text E,
      u ''Liczba przet'' @ [0x142] @ u ''umaczonych element'' @ [0xF3] @ u ''w: ''
        @ str_of_nat (length translations),
      [],
      u ''SZCZEG'' @ [0xD3, 0x141] @ u ''Y T'' @ [0x141] @ u ''UMACZE'' @ [0x143] @ u '':'',
      []]"

definition report_record :: "node \<Rightarrow> pystr \<Rightarrow> pystr list" where
  "report_record item translation =
     [u ''Element: '' @ tag item,
      u ''Orygina'' @ [0x142] @ u '': '' @ original_text item,
      u ''T'' @ [0x142] @ u ''umaczenie: '' @ translation,
      [0x15A] @ u ''cie'' @ [0x17C] @ u ''ka: '' @ path item,
      u ''---'']"

fun report_loop :: "nat \<Rightarrow> node list \<Rightarrow> pystr list \<Rightarrow> pystr list \<Rightarrow> pystr list" where
  "report_loop i [] translations report_lines = report_lines"
| "report_loop i (item # items) translations report_lines =
     report_loop (Suc i) items translations
       (if i < length translations
        then report_lines @ report_record item (translations ! i)
        else report_lines)"

definition generate_translation_report :: "env \<Rightarrow> translator \<Rightarrow> pystr list \<Rightarrow> pystr" where
  "generate_translation_report E self translations =
     join [NL] (report_loop 0 (translatable_texts self) translations (report_header E translations))"

section \<open>The endpoint\<close>

text \<open>
  The uploaded file: its name and its bytes decoded as UTF-8 (\<open>None\<close> when decoding
  raises). The request has the file or not.
\<close>

record upload =
  filename :: pystr
  decoded :: "pystr option"

datatype failure = NoFile | NoFilename | BadExtension | Undecodable | NoTexts | Raised error

text \<open>
  The reply is a JSON error with its status, or the archive of the reconstructed file
  and the report. Writing the two files and the archive is left out.
\<close>

datatype reply = JsonError nat failure | Archive pystr pystr

text \<open>
  \<open>filename.lower()\<close> is modelled on ASCII letters: no other character has a
  lower-case form that ends in one of the characters of \<open>.mui\<close>.
\<close>

definition lower :: "pystr \<Rightarrow> pystr" where
  "lower s = map (\<lambda>c. if rng CHR ''A'' CHR ''Z'' c then c + 32 else c) s"

definition translate_mui_file :: "env \<Rightarrow> upload option \<Rightarrow> reply \<times> pystr list list" where
  "translate_mui_file E files =
     (case files of
        None \<Rightarrow> (JsonError 400 NoFile, [])
      | Some file \<Rightarrow>
          if filename file = [] then (JsonError 400 NoFilename, [])
          else if \<not> suffix (u ''.mui'') (lower (filename file)) then (JsonError 400 BadExtension, [])
          else (case decoded file of
                  None \<Rightarrow> (JsonError 500 Undecodable, [])
                | Some file_content \<Rightarrow>
                    (let translator = \<lparr>translatable_texts = [], original_structure = None\<rparr>
                     in case parse_mui_file E translator file_content of
                          Inl e \<Rightarrow> (JsonError 500 (Raised e), [])
                        | Inr (translator, texts) \<Rightarrow>
                            if texts = [] then (JsonError 400 NoTexts, [])
                            else (case translate_texts E texts of
                                    (Inl e, calls) \<Rightarrow> (JsonError 500 (Raised e), calls)
                                  | (Inr translations, calls) \<Rightarrow>
                                      (case reconstruct_mui_file E translator translations of
                                         Inl e \<Rightarrow> (JsonError 500 (Raised e), calls)
                                       | Inr reconstructed_content \<Rightarrow>
                                           (Archive reconstructed_content
                                              (generate_translation_report E translator translations),
                                            calls))))))"

section \<open>Sample inputs\<close>

definition plain_env :: env where
  "plain_env = \<lparr>ET_fromstring = (\<lambda>s. None), unicode_decimal = (\<lambda>c. False),
                 CLAUDE_API_KEY = None, requests_post = (\<lambda>texts. None), now_text = []\<rparr>"

definition fresh :: translator where
  "fresh = \<lparr>translatable_texts = [], original_structure = None\<rparr>"

definition pierce_doc :: pystr where
  "pierce_doc = u ''<root><a>Pierce Method</a><b>ID_123</b><c><d>Laser Type</d></c></root>''"

definition pierce_tree :: element where
  "pierce_tree =
     Element (u ''root'') None
       [Element (u ''a'') (Some (u ''Pierce Method'')) [],
        Element (u ''b'') (Some (u ''ID_123'')) [],
        Element (u ''c'') None [Element (u ''d'') (Some (u ''Laser Type'')) []]]"

definition pierce_env :: env where
  "pierce_env = plain_env\<lparr>ET_fromstring := (\<lambda>s. if s = pierce_doc then Some pierce_tree else None)\<rparr>"

definition start_doc :: pystr where
  "start_doc = u ''<r><label>Start</label><label>Start</label></r>''"


definition start_node :: node where
  "start_node = \<lparr>path = u ''label'', tag = u ''label'', original_text = u ''Start'',
                  element_full_match = u ''<label>Start</label>''\<rparr>"




definition pierce_node :: node where
  "pierce_node = \<lparr>path = u ''a'', tag = u ''a'', original_text = u ''Pierce Method'',
                   element_full_match = u ''<a>Pierce Method</a>''\<rparr>"

definition surplus_env :: env where
  "surplus_env = plain_env
     \<lparr>CLAUDE_API_KEY := Some (u ''secret''),
      requests_post := (\<lambda>texts. Some (Response 200
         (Some (u ''Metoda przebicia'' @ [NL] @ u ''Typ lasera''))))\<rparr>"

definition laser_node :: node where
  "laser_node = \<lparr>path = u ''c/d'', tag = u ''d'', original_text = u ''Laser Type'',
                  element_full_match = u ''<d>Laser Type</d>''\<rparr>"

definition blank_line_env :: env where
  "blank_line_env = plain_env
     \<lparr>CLAUDE_API_KEY := Some (u ''secret''),
      requests_post := (\<lambda>texts. Some (Response 200
         (Some (u ''Metoda przebicia'' @ [NL] @ [32, 32] @ [NL] @ u ''Typ lasera''))))\<rparr>"

definition clock_env :: env where
  "clock_env = plain_env\<lparr>now_text := u ''2024-05-17 09:30:00''\<rparr>"

definition mui_upload :: upload where
  "mui_upload = \<lparr>filename = u ''panel.MUI'', decoded = Some pierce_doc\<rparr>"

definition service_env :: env where
  "service_env = pierce_env
     \<lparr>CLAUDE_API_KEY := Some (u ''secret''),
      requests_post := (\<lambda>texts. Some (Response 200
         (Some (u ''Metoda przebicia'' @ [NL] @ u ''Typ lasera''))))\<rparr>"

definition ids_doc :: pystr where
  "ids_doc = u ''<root><b>ID_123</b></root>''"

definition ids_tree :: element where
  "ids_tree = Element (u ''root'') None [Element (u ''b'') (Some (u ''ID_123'')) []]"

definition ids_env :: env where
  "ids_env = plain_env\<lparr>ET_fromstring := (\<lambda>s. if s = ids_doc then Some ids_tree else None)\<rparr>"

definition ids_upload :: upload where
  "ids_upload = \<lparr>filename = u ''ids.mui'', decoded = Some ids_doc\<rparr>"

section \<open>The classifier: properties\<close>

lemmas classifier_defs =
  is_code_like_def code_patterns_def re_match_def u_def rng_def chr_def is_digit_def
  ident_char_def NL_def

lemma re_run_star_all: "\<forall>x\<in>set cs. c x \<Longrightarrow> re_run [Star c, Eol] b cs"
  by (induction cs arbitrary: b) auto

lemma re_run_plus_all: "s \<noteq> [] \<Longrightarrow> \<forall>x\<in>set s. c x \<Longrightarrow> re_run [Plus c, Eol] b s"
  by (cases s) (auto simp: re_run_star_all)

lemma re_run_star_iff:
  "re_run [Star c, Eol] b s \<longleftrightarrow>
     (\<exists>cs e. s = cs @ e \<and> (\<forall>x\<in>set cs. c x) \<and> (e = [] \<or> e = [NL]))"
proof (induction s arbitrary: b)
  case Nil
  then show ?case by simp
next
  case (Cons x xs)
  show ?case
  proof
    assume "re_run [Star c, Eol] b (x # xs)"
    then consider "c x" "re_run [Star c, Eol] False xs" | "xs = []" "x = NL"
      by auto
    then show "\<exists>cs e. x # xs = cs @ e \<and> (\<forall>x\<in>set cs. c x) \<and> (e = [] \<or> e = [NL])"
    proof cases
      case 1
      then obtain cs e where "xs = cs @ e" "\<forall>x\<in>set cs. c x" "e = [] \<or> e = [NL]"
        using Cons.IH by blast
      with 1 have "x # xs = (x # cs) @ e \<and> (\<forall>y\<in>set (x # cs). c y) \<and> (e = [] \<or> e = [NL])"
        by simp
      then show ?thesis by blast
    next
      case 2
      then have "x # xs = [] @ [NL] \<and> (\<forall>y\<in>set []. c y)" by simp
      then show ?thesis by blast
    qed
  next
    assume "\<exists>cs e. x # xs = cs @ e \<and> (\<forall>x\<in>set cs. c x) \<and> (e = [] \<or> e = [NL])"
    then obtain cs e where h: "x # xs = cs @ e" "\<forall>x\<in>set cs. c x" "e = [] \<or> e = [NL]"
      by blast
    show "re_run [Star c, Eol] b (x # xs)"
    proof (cases cs)
      case Nil
      with h show ?thesis by auto
    next
      case (Cons y ys)
      with h have "c x" "xs = ys @ e" "\<forall>x\<in>set ys. c x" by auto
      with h(3) have "re_run [Star c, Eol] False xs" using Cons.IH by blast
      with \<open>c x\<close> show ?thesis by simp
    qed
  qed
qed

lemma match_any_mem: "p \<in> set ps \<Longrightarrow> re_match p s \<Longrightarrow> match_any ps s"
  by (induction ps) auto

text \<open>The first pattern accepts exactly what \<open>^[A-Z_][A-Z0-9_]*$\<close> describes.\<close>

lemma upper_pattern_iff:
  "re_match (code_patterns E ! 0) s \<longleftrightarrow>
     (\<exists>c cs e. s = c # cs @ e \<and> (rng CHR ''A'' CHR ''Z'' c \<or> chr CHR ''_'' c) \<and>
        (\<forall>x\<in>set cs. rng CHR ''A'' CHR ''Z'' x \<or> rng CHR ''0'' CHR ''9'' x \<or> chr CHR ''_'' x) \<and>
        (e = [] \<or> e = [NL]))"
  by (cases s) (auto simp: code_patterns_def re_match_def re_run_star_iff)

text \<open>
  Claim C6. Every string that the pattern \<open>^[A-Z_][A-Z0-9_]*$\<close> matches, in particular
  every string of an upper-case letter or underscore followed by upper-case letters,
  digits and underscores, and every string made of digits only, is code-like; so are
  \<open>#FF00AA\<close>, \<open>$variable\<close> and the one-character string \<open>a\<close>, while
  \<open>Pierce Method\<close> and \<open>Cutting Speed\<close> are not.
\<close>

theorem is_code_like_patterns:
  "(\<forall>s. re_match (code_patterns E ! 0) s \<longrightarrow> is_code_like E s) \<and>
   (\<forall>c cs. (rng CHR ''A'' CHR ''Z'' c \<or> chr CHR ''_'' c) \<and>
       (\<forall>x\<in>set cs. rng CHR ''A'' CHR ''Z'' x \<or> rng CHR ''0'' CHR ''9'' x \<or> chr CHR ''_'' x)
       \<longrightarrow> is_code_like E (c # cs)) \<and>
   (\<forall>s. (\<forall>x\<in>set s. is_digit E x) \<longrightarrow> is_code_like E s) \<and>
   is_code_like E (u ''#FF00AA'') \<and> is_code_like E (u ''$variable'') \<and>
   is_code_like E (u ''a'') \<and>
   \<not> is_code_like E (u ''Pierce Method'') \<and> \<not> is_code_like E (u ''Cutting Speed'')"
proof -
  have p0: "is_code_like E s" if "re_match (code_patterns E ! 0) s" for s
  proof -
    have "code_patterns E ! 0 \<in> set (code_patterns E)"
      by (simp add: code_patterns_def)
    then have "match_any (code_patterns E) s"
      using that by (rule match_any_mem)
    then show ?thesis by (simp add: is_code_like_def)
  qed
  have upper: "is_code_like E (c # cs)"
    if "rng CHR ''A'' CHR ''Z'' c \<or> chr CHR ''_'' c"
      and "\<forall>x\<in>set cs. rng CHR ''A'' CHR ''Z'' x \<or> rng CHR ''0'' CHR ''9'' x \<or> chr CHR ''_'' x"
    for c cs
  proof -
    from that have "c # cs = c # cs @ [] \<and> (rng CHR ''A'' CHR ''Z'' c \<or> chr CHR ''_'' c) \<and>
        (\<forall>x\<in>set cs. rng CHR ''A'' CHR ''Z'' x \<or> rng CHR ''0'' CHR ''9'' x \<or> chr CHR ''_'' x)"
      by simp
    then have "re_match (code_patterns E ! 0) (c # cs)"
      unfolding upper_pattern_iff by blast
    then show ?thesis by (rule p0)
  qed
  have digits: "is_code_like E s" if "\<forall>x\<in>set s. is_digit E x" for s
  proof (cases s)
    case Nil
    then show ?thesis by (simp add: is_code_like_def)
  next
    case (Cons a list)
    with that have "re_run [Plus (is_digit E), Eol] True s"
      by (intro re_run_plus_all) auto
    then show ?thesis
      by (simp add: is_code_like_def code_patterns_def re_match_def)
  qed
  have e1: "is_code_like E (u ''#FF00AA'')" by (simp add: classifier_defs)
  have e2: "is_code_like E (u ''$variable'')" by (simp add: classifier_defs)
  have e3: "is_code_like E (u ''a'')" by (simp add: classifier_defs)
  have e4: "\<not> is_code_like E (u ''Pierce Method'')" by (simp add: classifier_defs)
  have e5: "\<not> is_code_like E (u ''Cutting Speed'')" by (simp add: classifier_defs)
  from p0 upper digits e1 e2 e3 e4 e5 show ?thesis by blast
qed

theorem is_code_like_patterns_witness:
  "re_match (code_patterns plain_env ! 0) (u ''LASER_TYPE'') \<and>
   is_code_like plain_env (u ''LASER_TYPE'') \<and>
   list_all (is_digit plain_env) (u ''12345'') \<and>
   is_code_like plain_env (u ''12345'') \<and>
   \<not> is_code_like plain_env (u ''Pierce Method'')"
proof -
  have m: "re_match (code_patterns plain_env ! 0) (u ''LASER_TYPE'')"
    by (simp add: classifier_defs)
  have d: "\<forall>x\<in>set (u ''12345''). is_digit plain_env x"
    by (simp add: classifier_defs)
  from m d is_code_like_patterns [of plain_env] show ?thesis
    by (simp add: list_all_iff)
qed

section \<open>Finding and replacing: properties\<close>

lemma str_find_None_iff: "str_find old s = None \<longleftrightarrow> \<not> sublist old s"
  by (induction s) (auto simp: sublist_Cons_right)

lemma str_find_SomeD:
  "str_find old s = Some i \<Longrightarrow> s = take i s @ old @ drop (i + length old) s"
proof (induction s arbitrary: i)
  case Nil
  then show ?case by (simp split: if_splits)
next
  case (Cons c cs)
  show ?case
  proof (cases "prefix old (c # cs)")
    case True
    with Cons.prems have "i = 0" by simp
    moreover from True obtain r where "c # cs = old @ r" by (auto simp: prefix_def)
    ultimately show ?thesis by simp
  next
    case False
    with Cons.prems obtain j where j: "str_find old cs = Some j" "i = Suc j" by auto
    from Cons.IH[OF j(1)] j(2) show ?thesis by simp
  qed
qed



lemma replace_first_same: "replace_first x x s = s"
  using str_find_SomeD[of x s] by (auto simp: replace_first_def split: option.splits)

lemma replace_first_absent: "\<not> sublist old s \<Longrightarrow> replace_first old new s = s"
  by (simp add: replace_first_def str_find_None_iff[symmetric])


section \<open>The extractor: properties\<close>

lemmas strip_defs = strip_def lstrip_def rstrip_def is_space_def

lemma pierce_extract:
  "extract_texts E pierce_tree [] =
     [\<lparr>path = u ''a'', tag = u ''a'', original_text = u ''Pierce Method'',
       element_full_match = u ''<a>Pierce Method</a>''\<rparr>,
      \<lparr>path = u ''c/d'', tag = u ''d'', original_text = u ''Laser Type'',
       element_full_match = u ''<d>Laser Type</d>''\<rparr>]"
  by (simp add: pierce_tree_def emit_def child_path_def full_match_def strip_defs classifier_defs)

lemma pierce_doc_no_bom:
  "remove_char BOM (if prefix [BOM] pierce_doc then drop 1 pierce_doc else pierce_doc) = pierce_doc"
  by (simp add: pierce_doc_def remove_char_def BOM_def u_def)

text \<open>
  Claim C5. When the parser reads the document
  \<open><root><a>Pierce Method</a><b>ID_123</b><c><d>Laser Type</d></c></root>\<close> as the tree
  it denotes, extraction yields exactly two nodes, in pre-order: tag \<open>a\<close> with text
  \<open>Pierce Method\<close>, then tag \<open>d\<close> with text \<open>Laser Type\<close>. Element \<open>b\<close> is left
  out as code-like, and \<open>d\<close> is visited although its parent \<open>c\<close> has no text.
\<close>

theorem parse_pierce_document:
  assumes "ET_fromstring E pierce_doc = Some pierce_tree"
  shows "parse_mui_file E self pierce_doc =
     Inr (self\<lparr>original_structure := Some pierce_doc,
               translatable_texts :=
                 [\<lparr>path = u ''a'', tag = u ''a'', original_text = u ''Pierce Method'',
                   element_full_match = u ''<a>Pierce Method</a>''\<rparr>,
                  \<lparr>path = u ''c/d'', tag = u ''d'', original_text = u ''Laser Type'',
                   element_full_match = u ''<d>Laser Type</d>''\<rparr>]\<rparr>,
          [\<lparr>path = u ''a'', tag = u ''a'', original_text = u ''Pierce Method'',
            element_full_match = u ''<a>Pierce Method</a>''\<rparr>,
           \<lparr>path = u ''c/d'', tag = u ''d'', original_text = u ''Laser Type'',
            element_full_match = u ''<d>Laser Type</d>''\<rparr>])"
  using assms by (simp add: parse_mui_file_def Let_def pierce_doc_no_bom pierce_extract)

theorem parse_pierce_document_witness:
  "ET_fromstring pierce_env pierce_doc = Some pierce_tree \<and>
   map tag (snd (projr (parse_mui_file pierce_env fresh pierce_doc))) = [u ''a'', u ''d''] \<and>
   map original_text (snd (projr (parse_mui_file pierce_env fresh pierce_doc))) =
     [u ''Pierce Method'', u ''Laser Type'']"
proof -
  have h: "ET_fromstring pierce_env pierce_doc = Some pierce_tree"
    by (simp add: pierce_env_def)
  from h parse_pierce_document [OF h, of fresh] show ?thesis by simp
qed

section \<open>The reconstructor: properties\<close>









text \<open>
  Claim C3. For every environment, translator state and translation list,
  \<open>reconstruct_mui_file\<close> either fails with the reconstruction error or returns the
  text after all substitutions, and then that text parses. A candidate that does not
  parse is never returned, and no other text is.
\<close>

theorem reconstruct_validated:
  "reconstruct_mui_file E self ts = Inl ReconstructFailed \<or>
   (\<exists>content root.
      original_structure self = Some content \<and>
      reconstruct_mui_file E self ts = Inr (substitute 0 (translatable_texts self) ts content) \<and>
      ET_fromstring E (substitute 0 (translatable_texts self) ts content) = Some root)"
  by (auto simp: reconstruct_mui_file_def Let_def split: option.splits)

text \<open>
  Claim C8. A node whose snippet does not occur in the working text at its turn leaves
  the text unchanged, and the loop goes on with the next node; the substitution loop has
  no failing branch.
\<close>

theorem missing_snippet_skipped:
  assumes "\<not> sublist (element_full_match item) w"
  shows "replace_first (element_full_match item) (full_match (tag item) (ts ! i)) w = w \<and>
         substitute i (item # items) ts w = substitute (Suc i) items ts w"
  using assms by (simp add: replace_first_absent)

theorem missing_snippet_skipped_witness:
  "\<not> sublist (element_full_match pierce_node) start_doc \<and>
   substitute 0 [pierce_node, start_node] [u ''Metoda przebicia'', u ''Uruchom''] start_doc =
     u ''<r><label>Uruchom</label><label>Start</label></r>''"
proof -
  have h: "\<not> sublist (element_full_match pierce_node) start_doc"
    by (simp add: pierce_node_def start_doc_def u_def sublist_code(3))
  have "substitute (Suc 0) [start_node] [u ''Metoda przebicia'', u ''Uruchom''] start_doc =
      u ''<r><label>Uruchom</label><label>Start</label></r>''"
    by (simp add: start_node_def start_doc_def replace_first_def full_match_def u_def)
  with h missing_snippet_skipped [OF h, of "[u ''Metoda przebicia'', u ''Uruchom'']" 0 "[start_node]"]
  show ?thesis by simp
qed

lemma emit_full_match:
  "n \<in> set (emit E child p) \<Longrightarrow> element_full_match n = full_match (tag n) (original_text n)"
  by (auto simp: emit_def Let_def split: option.splits if_splits)

lemma extract_full_match:
  "n \<in> set (extract_texts E e p) \<Longrightarrow> element_full_match n = full_match (tag n) (original_text n)"
proof (induction E e p rule: extract_texts.induct)
  case (1 E t x cs p)
  from "1.prems" obtain child where c: "child \<in> set cs"
    and "n \<in> set (emit E child (child_path p child)) \<or>
         n \<in> set (extract_texts E child (child_path p child))"
    by auto
  then show ?case
    using emit_full_match "1.IH"[OF c] by blast
qed

lemma substitute_originals:
  assumes "\<forall>n\<in>set items. element_full_match n = full_match (tag n) (original_text n)"
    and "i + length items \<le> length ts"
    and "\<forall>j<length items. ts ! (i + j) = original_text (items ! j)"
  shows "substitute i items ts w = w"
  using assms
proof (induction items arbitrary: i)
  case Nil
  then show ?case by simp
next
  case (Cons item items)
  from Cons.prems(3) have "ts ! (i + 0) = original_text ((item # items) ! 0)" by blast
  then have here: "ts ! i = original_text item" by simp
  have rest: "\<forall>j<length items. ts ! (Suc i + j) = original_text (items ! j)"
  proof (intro allI impI)
    fix j assume "j < length items"
    then have "Suc j < length (item # items)" by simp
    with Cons.prems(3) have "ts ! (i + Suc j) = original_text ((item # items) ! Suc j)" by blast
    then show "ts ! (Suc i + j) = original_text (items ! j)" by simp
  qed
  from Cons.prems have "substitute (Suc i) items ts w = w"
    using rest by (intro Cons.IH) auto
  with Cons.prems(1,2) here show ?case
    by (simp add: replace_first_same)
qed

text \<open>
  Claim C4. For a document that parses (after the byte-order marks are removed, as the
  extractor does), reconstructing with the original texts of the extracted nodes as
  translations succeeds and returns the normalised document text itself, which parses to
  the tree the nodes were extracted from.
\<close>

theorem roundtrip_originals:
  assumes "ET_fromstring E (remove_char BOM (if prefix [BOM] doc then drop 1 doc else doc)) = Some root"
  shows "\<exists>self' nodes.
           parse_mui_file E self doc = Inr (self', nodes) \<and>
           reconstruct_mui_file E self' (map original_text nodes) =
             Inr (remove_char BOM (if prefix [BOM] doc then drop 1 doc else doc)) \<and>
           ET_fromstring E (remove_char BOM (if prefix [BOM] doc then drop 1 doc else doc)) = Some root"
proof -
  let ?c = "remove_char BOM (if prefix [BOM] doc then drop 1 doc else doc)"
  let ?nodes = "extract_texts E root []"
  let ?self = "self\<lparr>original_structure := Some ?c, translatable_texts := ?nodes\<rparr>"
  have p: "parse_mui_file E self doc = Inr (?self, ?nodes)"
    using assms by (simp add: parse_mui_file_def Let_def)
  have "substitute 0 ?nodes (map original_text ?nodes) ?c = ?c"
    by (rule substitute_originals) (auto simp: extract_full_match)
  then have "reconstruct_mui_file E ?self (map original_text ?nodes) = Inr ?c"
    using assms by (simp add: reconstruct_mui_file_def Let_def)
  with p assms show ?thesis by blast
qed

theorem roundtrip_originals_witness:
  "ET_fromstring pierce_env
     (remove_char BOM (if prefix [BOM] (BOM # pierce_doc) then drop 1 (BOM # pierce_doc)
                       else BOM # pierce_doc)) = Some pierce_tree \<and>
   (\<exists>self' nodes.
      parse_mui_file pierce_env fresh (BOM # pierce_doc) = Inr (self', nodes) \<and>
      reconstruct_mui_file pierce_env self' (map original_text nodes) = Inr pierce_doc)"
proof -
  have n: "remove_char BOM (if prefix [BOM] (BOM # pierce_doc) then drop 1 (BOM # pierce_doc)
                       else BOM # pierce_doc) = pierce_doc"
    by (simp add: pierce_doc_def remove_char_def BOM_def u_def)
  have h: "ET_fromstring pierce_env
     (remove_char BOM (if prefix [BOM] (BOM # pierce_doc) then drop 1 (BOM # pierce_doc)
                       else BOM # pierce_doc)) = Some pierce_tree"
    unfolding n by (simp add: pierce_env_def)
  from roundtrip_originals [OF h, of fresh] h show ?thesis
    unfolding n by blast
qed

section \<open>The translation call: properties\<close>

lemma strip_all_space:
  assumes "\<forall>c\<in>set w. is_space c"
  shows "strip w = []"
proof -
  from assms have e: "dropWhile is_space w = []"
    by simp
  show ?thesis unfolding strip_def lstrip_def rstrip_def e by simp
qed

lemma strip_space_left: "\<forall>c\<in>set w. is_space c \<Longrightarrow> strip (w @ x) = strip x"
  by (simp add: strip_def lstrip_def dropWhile_append)

lemma strip_space_right:
  assumes "\<forall>c\<in>set w. is_space c"
  shows "strip (x @ w) = strip x"
proof (cases "\<forall>c\<in>set x. is_space c")
  case True
  with assms have "\<forall>c\<in>set (x @ w). is_space c" by auto
  then have "strip (x @ w) = []" by (rule strip_all_space)
  with True show ?thesis by (simp add: strip_all_space)
next
  case False
  then have "lstrip (x @ w) = lstrip x @ w"
    by (auto simp: lstrip_def dropWhile_append)
  with assms show ?thesis
    by (simp add: strip_def rstrip_def dropWhile_append)
qed

lemma split_nl_nonempty: "split_nl s \<noteq> []"
  by (induction s) (auto split: list.splits)

lemma split_nl_append:
  "split_nl (a @ b) =
     butlast (split_nl a) @ [last (split_nl a) @ hd (split_nl b)] @ tl (split_nl b)"
proof (induction a)
  case Nil
  then show ?case using split_nl_nonempty[of b] by (cases "split_nl b") auto
next
  case (Cons c a)
  show ?case
  proof (cases "c = NL")
    case True
    with Cons show ?thesis using split_nl_nonempty[of a] by simp
  next
    case False
    obtain l ls where a: "split_nl a = l # ls"
      using split_nl_nonempty[of a] by (cases "split_nl a") auto
    show ?thesis
    proof (cases ls)
      case Nil
      with a False Cons show ?thesis by simp
    next
      case (Cons k ks)
      with a False Cons.IH show ?thesis by simp
    qed
  qed
qed

lemma split_nl_newline: "split_nl (a @ NL # b) = split_nl a @ split_nl b"
proof (induction a)
  case Nil
  then show ?case by simp
next
  case (Cons c a)
  then show ?case using split_nl_nonempty[of a] by (auto split: list.splits)
qed

lemma split_nl_chars: "l \<in> set (split_nl s) \<Longrightarrow> set l \<subseteq> set s"
proof (induction s arbitrary: l)
  case Nil
  then show ?case by simp
next
  case (Cons c s)
  then show ?case by (fastforce split: if_splits list.splits)
qed

lemma space_lines_blank:
  assumes "\<forall>c\<in>set w. is_space c"
  shows "filter (\<lambda>l. strip l \<noteq> []) (split_nl w) = []"
proof -
  have "strip l = []" if "l \<in> set (split_nl w)" for l
    using split_nl_chars[OF that] assms by (intro strip_all_space) auto
  then show ?thesis by (simp add: filter_empty_conv)
qed

lemma space_lines_blank_part:
  assumes "\<forall>c\<in>set w. is_space c" "set ls \<subseteq> set (split_nl w)"
  shows "filter (\<lambda>l. strip l \<noteq> []) ls = []"
proof -
  have "strip l = []" if "l \<in> set ls" for l
  proof -
    from that assms(2) have "l \<in> set (split_nl w)" by blast
    from split_nl_chars[OF this] assms(1) show ?thesis
      by (intro strip_all_space) auto
  qed
  then show ?thesis by (simp add: filter_empty_conv)
qed

lemma lines_space_left:
  assumes "\<forall>c\<in>set w. is_space c"
  shows "map strip (filter (\<lambda>l. strip l \<noteq> []) (split_nl (w @ x))) =
         map strip (filter (\<lambda>l. strip l \<noteq> []) (split_nl x))"
proof -
  obtain h t where x: "split_nl x = h # t"
    using split_nl_nonempty[of x] by (cases "split_nl x") auto
  have "set (butlast (split_nl w)) \<subseteq> set (split_nl w)"
    by (auto dest: in_set_butlastD)
  with assms have b: "filter (\<lambda>l. strip l \<noteq> []) (butlast (split_nl w)) = []"
    by (rule space_lines_blank_part)
  have "last (split_nl w) \<in> set (split_nl w)"
    using split_nl_nonempty by simp
  from split_nl_chars[OF this] assms have "\<forall>c\<in>set (last (split_nl w)). is_space c"
    by auto
  then have s: "strip (last (split_nl w) @ h) = strip h"
    by (rule strip_space_left)
  show ?thesis
    by (simp add: split_nl_append[of w x] x b s)
qed

lemma lines_space_right:
  assumes "\<forall>c\<in>set w. is_space c"
  shows "map strip (filter (\<lambda>l. strip l \<noteq> []) (split_nl (x @ w))) =
         map strip (filter (\<lambda>l. strip l \<noteq> []) (split_nl x))"
proof -
  obtain h t where w: "split_nl w = h # t"
    using split_nl_nonempty[of w] by (cases "split_nl w") auto
  then have "set t \<subseteq> set (split_nl w)" by auto
  with assms have b: "filter (\<lambda>l. strip l \<noteq> []) t = []"
    by (rule space_lines_blank_part)
  from w have "h \<in> set (split_nl w)" by simp
  from split_nl_chars[OF this] assms have "\<forall>c\<in>set h. is_space c"
    by auto
  then have s: "strip (last (split_nl x) @ h) = strip (last (split_nl x))"
    by (rule strip_space_right)
  have "map strip (filter (\<lambda>l. strip l \<noteq> []) (split_nl (x @ w))) =
        map strip (filter (\<lambda>l. strip l \<noteq> []) (butlast (split_nl x) @ [last (split_nl x)]))"
    by (simp add: split_nl_append[of x w] w b s)
  then show ?thesis
    using split_nl_nonempty[of x] by simp
qed

lemma lstrip_decomp: "\<exists>w. (\<forall>c\<in>set w. is_space c) \<and> s = w @ lstrip s"
proof -
  have "s = takeWhile is_space s @ lstrip s" by (simp add: lstrip_def)
  moreover have "\<forall>c\<in>set (takeWhile is_space s). is_space c"
    by (auto dest: set_takeWhileD)
  ultimately show ?thesis by blast
qed

lemma rstrip_decomp: "\<exists>w. (\<forall>c\<in>set w. is_space c) \<and> s = rstrip s @ w"
proof -
  have "rev s = takeWhile is_space (rev s) @ dropWhile is_space (rev s)" by simp
  then have "s = rev (dropWhile is_space (rev s)) @ rev (takeWhile is_space (rev s))"
    by (metis rev_append rev_rev_ident)
  moreover have "\<forall>c\<in>set (rev (takeWhile is_space (rev s))). is_space c"
    by (auto dest: set_takeWhileD)
  ultimately show ?thesis unfolding rstrip_def by blast
qed

lemma response_lines_unstripped:
  "response_lines t = map strip (filter (\<lambda>l. strip l \<noteq> []) (split_nl t))"
proof -
  obtain w1 where w1: "\<forall>c\<in>set w1. is_space c" "t = w1 @ lstrip t"
    using lstrip_decomp by blast
  obtain w2 where w2: "\<forall>c\<in>set w2. is_space c" "lstrip t = rstrip (lstrip t) @ w2"
    using rstrip_decomp by blast
  have "map strip (filter (\<lambda>l. strip l \<noteq> []) (split_nl t)) =
        map strip (filter (\<lambda>l. strip l \<noteq> []) (split_nl (lstrip t)))"
    using lines_space_left[OF w1(1), of "lstrip t"] w1(2) by simp
  also have "\<dots> = map strip (filter (\<lambda>l. strip l \<noteq> []) (split_nl (rstrip (lstrip t))))"
    using lines_space_right[OF w2(1), of "rstrip (lstrip t)"] w2(2) by simp
  finally show ?thesis by (simp add: response_lines_def strip_def)
qed

lemma response_lines_newline:
  "response_lines (a @ NL # b) = response_lines a @ response_lines b"
  by (simp add: response_lines_unstripped split_nl_newline)

lemma response_lines_space: "\<forall>c\<in>set w. is_space c \<Longrightarrow> response_lines w = []"
  by (simp add: response_lines_unstripped space_lines_blank)

lemma backfill_eq: "backfill texts ts = ts @ drop (length ts) texts"
proof (induction texts ts rule: backfill.induct)
  case (1 texts ts)
  show ?case
  proof (cases "length ts < length texts")
    case True
    with 1 have "backfill texts ts = (ts @ [texts ! length ts]) @ drop (Suc (length ts)) texts"
      by (simp add: backfill.simps[of texts ts])
    with True show ?thesis by (simp add: Cons_nth_drop_Suc)
  next
    case False
    then show ?thesis by (simp add: backfill.simps[of texts ts])
  qed
qed

text \<open>
  When the service answers with at most as many lines as there are nodes, the result has
  one entry per node, and the entries the answer lacks are the original texts.
\<close>

lemma translate_texts_backfilled:
  assumes "CLAUDE_API_KEY E = Some key" "key \<noteq> []"
    and "requests_post E (map original_text nodes) = Some (Response 200 (Some t))"
    and "length (response_lines t) \<le> length nodes"
  shows "fst (translate_texts E nodes) =
           Inr (response_lines t @ drop (length (response_lines t)) (map original_text nodes))"
    and "length (response_lines t @ drop (length (response_lines t)) (map original_text nodes)) =
           length nodes"
  using assms by (auto simp: translate_texts_def Let_def backfill_eq)

lemma surplus_response_lines:
  "response_lines (u ''Metoda przebicia'' @ NL # u ''Typ lasera'') =
     [u ''Metoda przebicia'', u ''Typ lasera'']"
  by (simp add: response_lines_unstripped u_def NL_def strip_def lstrip_def rstrip_def is_space_def)

lemma secret_nonempty: "u ''secret'' \<noteq> []"
  by (simp add: u_def)

text \<open>
  Claim C1 fails on the code. One node is sent and the service answers with two lines:
  the list that \<open>translate_texts\<close> returns has two entries, not one. The length check
  sees the mismatch, and the loop under it only appends.
\<close>

theorem surplus_lines_kept:
  "translate_texts surplus_env [pierce_node] =
     (Inr [u ''Metoda przebicia'', u ''Typ lasera''], [[u ''Pierce Method'']]) \<and>
   length [u ''Metoda przebicia'', u ''Typ lasera''] \<noteq> length [pierce_node]"
  by (simp add: translate_texts_def Let_def surplus_env_def plain_env_def pierce_node_def
      surplus_response_lines secret_nonempty backfill_eq)

text \<open>
  Claim C10. The list read from the answer of the service never contains an empty
  string. It is the list of the stripped lines of the answer that are not blank, so a
  blank line between two parts of the answer contributes no entry: the entries of the
  part after it follow directly on those of the part before it, one index earlier than
  their line number.
\<close>

theorem blank_lines_dropped:
  "[] \<notin> set (response_lines t) \<and>
   response_lines t = map strip (filter (\<lambda>l. strip l \<noteq> []) (split_nl t)) \<and>
   ((\<forall>c\<in>set blank. is_space c) \<longrightarrow>
      response_lines (pre @ [NL] @ blank @ [NL] @ post) =
      response_lines pre @ response_lines post)"
proof (intro conjI impI)
  show "[] \<notin> set (response_lines t)"
    by (auto simp: response_lines_def)
  show "response_lines t = map strip (filter (\<lambda>l. strip l \<noteq> []) (split_nl t))"
    by (rule response_lines_unstripped)
  assume "\<forall>c\<in>set blank. is_space c"
  then have "response_lines blank = []"
    by (rule response_lines_space)
  then show "response_lines (pre @ [NL] @ blank @ [NL] @ post) =
      response_lines pre @ response_lines post"
    by (simp add: response_lines_newline)
qed

theorem blank_lines_dropped_witness:
  "list_all is_space ([32, 32]) \<and>
   response_lines (u ''Metoda przebicia'' @ [NL] @ [32, 32] @ [NL] @ u ''Typ lasera'') =
     [u ''Metoda przebicia'', u ''Typ lasera''] \<and>
   fst (translate_texts blank_line_env [pierce_node, start_node, laser_node]) =
     Inr [u ''Metoda przebicia'', u ''Typ lasera'', u ''Laser Type'']"
proof -
  have h: "\<forall>c\<in>set [32, 32]. is_space c"
    by (simp add: is_space_def)
  have a: "response_lines (u ''Metoda przebicia'') = [u ''Metoda przebicia'']"
    by (simp add: response_lines_unstripped u_def NL_def strip_def lstrip_def rstrip_def is_space_def)
  have b: "response_lines (u ''Typ lasera'') = [u ''Typ lasera'']"
    by (simp add: response_lines_unstripped u_def NL_def strip_def lstrip_def rstrip_def is_space_def)
  from blank_lines_dropped [of "[]" "[32, 32]" "u ''Metoda przebicia''" "u ''Typ lasera''"] h
  have "response_lines (u ''Metoda przebicia'' @ [NL] @ [32, 32] @ [NL] @ u ''Typ lasera'') =
     response_lines (u ''Metoda przebicia'') @ response_lines (u ''Typ lasera'')"
    by blast
  with a b
  have r: "response_lines (u ''Metoda przebicia'' @ [NL] @ [32, 32] @ [NL] @ u ''Typ lasera'') =
     [u ''Metoda przebicia'', u ''Typ lasera'']"
    by simp
  have "fst (translate_texts blank_line_env [pierce_node, start_node, laser_node]) =
     Inr [u ''Metoda przebicia'', u ''Typ lasera'', u ''Laser Type'']"
    using r
    by (simp add: translate_texts_def Let_def blank_line_env_def plain_env_def backfill_eq
        pierce_node_def start_node_def laser_node_def secret_nonempty)
  with h r show ?thesis by (simp add: list_all_iff)
qed

section \<open>The report and the endpoint: properties\<close>

lemma report_loop_zip:
  "report_loop i items ts acc =
     acc @ concat (map (\<lambda>(n, t). report_record n t) (zip items (drop i ts)))"
proof (induction items arbitrary: i acc)
  case Nil
  then show ?case by simp
next
  case (Cons item items)
  show ?case
  proof (cases "i < length ts")
    case True
    then have "drop i ts = ts ! i # drop (Suc i) ts"
      by (simp add: Cons_nth_drop_Suc)
    with True Cons.IH show ?thesis by simp
  next
    case False
    with Cons.IH show ?thesis by simp
  qed
qed

lemma int_of_str_snoc: "int_of_str (ds @ [d]) = 10 * int_of_str ds + (d - 48)"
  by (simp add: int_of_str_def)

lemma str_of_nat_decimal:
  "int_of_str (str_of_nat n) = n \<and> list_all (\<lambda>d. 48 \<le> d \<and> d \<le> 57) (str_of_nat n)"
proof (induction n rule: str_of_nat.induct)
  case (1 n)
  show ?case
  proof (cases "n < 10")
    case True
    then show ?thesis
      by (simp add: str_of_nat.simps[of n] int_of_str_def)
  next
    case False
    with 1 have "int_of_str (str_of_nat (n div 10)) = n div 10"
      and "list_all (\<lambda>d. 48 \<le> d \<and> d \<le> 57) (str_of_nat (n div 10))"
      by simp_all
    moreover have "n mod 10 < 10" by simp
    ultimately show ?thesis
      using False by (simp add: str_of_nat.simps[of n] int_of_str_snoc)
  qed
qed

text \<open>
  Claim C9, as stated, fails. With two nodes and one translation the header gives the
  count 1, the number of translations, and the report has a record for the first node
  only. The report is written out in full.
\<close>

theorem report_follows_translations:
  "generate_translation_report clock_env
     \<lparr>translatable_texts = [pierce_node, laser_node], original_structure = None\<rparr>
     [u ''Metoda przebicia''] =
     u ''=== RAPORT T'' @ [0x141] @ u ''UMACZENIA PLIKU .MUI ==='' @ [NL] @
     u ''Data: 2024-05-17 09:30:00'' @ [NL] @
     u ''Liczba przet'' @ [0x142] @ u ''umaczonych element'' @ [0xF3] @ u ''w: 1'' @ [NL] @
     [NL] @
     u ''SZCZEG'' @ [0xD3, 0x141] @ u ''Y T'' @ [0x141] @ u ''UMACZE'' @ [0x143] @ u '':'' @ [NL] @
     [NL] @
     u ''Element: a'' @ [NL] @
     u ''Orygina'' @ [0x142] @ u '': Pierce Method'' @ [NL] @
     u ''T'' @ [0x142] @ u ''umaczenie: Metoda przebicia'' @ [NL] @
     [0x15A] @ u ''cie'' @ [0x17C] @ u ''ka: a'' @ [NL] @
     u ''---'' \<and>
   length [pierce_node, laser_node] = 2"
  by (simp add: generate_translation_report_def report_header_def report_record_def
      str_of_nat.simps clock_env_def plain_env_def pierce_node_def laser_node_def u_def NL_def)

text \<open>
  Claim C9, amended. The report is, joined by line feeds: the title line, the line
  \<open>Data:\<close> with the timestamp, the line with the number of translations in decimal
  digits, an empty line, the line that heads the details, an empty line, and then, for
  each node that has a translation at its index and in extraction order, the five lines
  of its record: \<open>Element:\<close> with the tag, the original text, the translation, the
  path, and the separator \<open>---\<close>. With no more translations than nodes the count is the
  number of records; with as many translations as nodes it is the node count and every
  node has its record.
\<close>

theorem report_shape:
  "generate_translation_report E self ts =
     join [NL]
       ([u ''=== RAPORT T'' @ [0x141] @ u ''UMACZENIA PLIKU .MUI ==='',
         u ''Data: '' @ now_text E,
         u ''Liczba przet'' @ [0x142] @ u ''umaczonych element'' @ [0xF3] @ u ''w: ''
           @ str_of_nat (length ts),
         [],
         u ''SZCZEG'' @ [0xD3, 0x141] @ u ''Y T'' @ [0x141] @ u ''UMACZE'' @ [0x143] @ u '':'',
         []] @
        concat (map (\<lambda>(n, t).
                  [u ''Element: '' @ tag n,
                   u ''Orygina'' @ [0x142] @ u '': '' @ original_text n,
                   u ''T'' @ [0x142] @ u ''umaczenie: '' @ t,
                   [0x15A] @ u ''cie'' @ [0x17C] @ u ''ka: '' @ path n,
                   u ''---''])
                (zip (translatable_texts self) ts))) \<and>
   int_of_str (str_of_nat (length ts)) = length ts \<and>
   list_all (\<lambda>d. 48 \<le> d \<and> d \<le> 57) (str_of_nat (length ts)) \<and>
   (length ts \<le> length (translatable_texts self) \<longrightarrow>
      length (zip (translatable_texts self) ts) = length ts) \<and>
   (length ts = length (translatable_texts self) \<longrightarrow>
      map fst (zip (translatable_texts self) ts) = translatable_texts self \<and>
      map snd (zip (translatable_texts self) ts) = ts)"
proof -
  have "report_record = (\<lambda>n t.
                  [u ''Element: '' @ tag n,
                   u ''Orygina'' @ [0x142] @ u '': '' @ original_text n,
                   u ''T'' @ [0x142] @ u ''umaczenie: '' @ t,
                   [0x15A] @ u ''cie'' @ [0x17C] @ u ''ka: '' @ path n,
                   u ''---''])"
    by (intro ext) (simp add: report_record_def)
  then have "generate_translation_report E self ts =
     join [NL]
       ([u ''=== RAPORT T'' @ [0x141] @ u ''UMACZENIA PLIKU .MUI ==='',
         u ''Data: '' @ now_text E,
         u ''Liczba przet'' @ [0x142] @ u ''umaczonych element'' @ [0xF3] @ u ''w: ''
           @ str_of_nat (length ts),
         [],
         u ''SZCZEG'' @ [0xD3, 0x141] @ u ''Y T'' @ [0x141] @ u ''UMACZE'' @ [0x143] @ u '':'',
         []] @
        concat (map (\<lambda>(n, t).
                  [u ''Element: '' @ tag n,
                   u ''Orygina'' @ [0x142] @ u '': '' @ original_text n,
                   u ''T'' @ [0x142] @ u ''umaczenie: '' @ t,
                   [0x15A] @ u ''cie'' @ [0x17C] @ u ''ka: '' @ path n,
                   u ''---''])
                (zip (translatable_texts self) ts)))"
    by (simp add: generate_translation_report_def report_loop_zip report_header_def)
  then show ?thesis
    using str_of_nat_decimal[of "length ts"] by simp
qed

theorem report_shape_witness:
  "length [u ''Metoda przebicia'', u ''Typ lasera''] = length [pierce_node, laser_node] \<and>
   generate_translation_report clock_env
     \<lparr>translatable_texts = [pierce_node, laser_node], original_structure = None\<rparr>
     [u ''Metoda przebicia'', u ''Typ lasera''] =
     u ''=== RAPORT T'' @ [0x141] @ u ''UMACZENIA PLIKU .MUI ==='' @ [NL] @
     u ''Data: 2024-05-17 09:30:00'' @ [NL] @
     u ''Liczba przet'' @ [0x142] @ u ''umaczonych element'' @ [0xF3] @ u ''w: 2'' @ [NL] @
     [NL] @
     u ''SZCZEG'' @ [0xD3, 0x141] @ u ''Y T'' @ [0x141] @ u ''UMACZE'' @ [0x143] @ u '':'' @ [NL] @
     [NL] @
     u ''Element: a'' @ [NL] @
     u ''Orygina'' @ [0x142] @ u '': Pierce Method'' @ [NL] @
     u ''T'' @ [0x142] @ u ''umaczenie: Metoda przebicia'' @ [NL] @
     [0x15A] @ u ''cie'' @ [0x17C] @ u ''ka: a'' @ [NL] @
     u ''---'' @ [NL] @
     u ''Element: d'' @ [NL] @
     u ''Orygina'' @ [0x142] @ u '': Laser Type'' @ [NL] @
     u ''T'' @ [0x142] @ u ''umaczenie: Typ lasera'' @ [NL] @
     [0x15A] @ u ''cie'' @ [0x17C] @ u ''ka: c/d'' @ [NL] @
     u ''---'' \<and>
   int_of_str (u ''2'') = 2 \<and>
   map fst (zip [pierce_node, laser_node] [u ''Metoda przebicia'', u ''Typ lasera'']) =
     [pierce_node, laser_node]"
  using report_shape [of clock_env
      "\<lparr>translatable_texts = [pierce_node, laser_node], original_structure = None\<rparr>"
      "[u ''Metoda przebicia'', u ''Typ lasera'']"]
  by (simp add: str_of_nat.simps clock_env_def plain_env_def pierce_node_def laser_node_def
      u_def NL_def int_of_str_def)

lemma parse_mui_file_cases:
  "parse_mui_file E self doc = Inl InvalidMuiFormat \<or>
   (\<exists>st nodes. parse_mui_file E self doc = Inr (st, nodes))"
  by (auto simp: parse_mui_file_def Let_def split: option.splits)

lemma translate_texts_calls:
  "snd (translate_texts E nodes) =
     (if CLAUDE_API_KEY E = None \<or> CLAUDE_API_KEY E = Some [] then []
      else [map original_text nodes])"
  by (simp add: translate_texts_def Let_def)

text \<open>
  Claim C7. A request that reaches the translation service has a file that was parsed,
  at least one extracted node, and a non-empty credential; it reaches the service once,
  with the original texts of the nodes. When parsing fails, when no node is extracted,
  or when the credential is missing, the reply is the corresponding error and nothing was
  sent.
\<close>

theorem no_call_on_early_failure:
  "(snd (translate_mui_file E files) \<noteq> [] \<longrightarrow>
      (\<exists>file content st nodes key.
         files = Some file \<and> decoded file = Some content \<and>
         parse_mui_file E \<lparr>translatable_texts = [], original_structure = None\<rparr> content =
           Inr (st, nodes) \<and>
         nodes \<noteq> [] \<and> CLAUDE_API_KEY E = Some key \<and> key \<noteq> [] \<and>
         snd (translate_mui_file E files) = [map original_text nodes])) \<and>
   (files = Some upl \<and> filename upl \<noteq> [] \<and> suffix (u ''.mui'') (lower (filename upl)) \<and>
    decoded upl = Some content \<longrightarrow>
      (parse_mui_file E \<lparr>translatable_texts = [], original_structure = None\<rparr> content = Inl e \<longrightarrow>
         translate_mui_file E files = (JsonError 500 (Raised InvalidMuiFormat), [])) \<and>
      (parse_mui_file E \<lparr>translatable_texts = [], original_structure = None\<rparr> content =
         Inr (st, []) \<longrightarrow>
         translate_mui_file E files = (JsonError 400 NoTexts, [])) \<and>
      (parse_mui_file E \<lparr>translatable_texts = [], original_structure = None\<rparr> content =
         Inr (st, n # ns) \<and> (CLAUDE_API_KEY E = None \<or> CLAUDE_API_KEY E = Some []) \<longrightarrow>
         translate_mui_file E files = (JsonError 500 (Raised NoApiKey), []))) \<and>
   ((CLAUDE_API_KEY E = None \<or> CLAUDE_API_KEY E = Some []) \<longrightarrow>
      translate_texts E nodes = (Inl NoApiKey, []))"
proof (intro conjI impI)
  assume "snd (translate_mui_file E files) \<noteq> []"
  then show "\<exists>file content st nodes key.
         files = Some file \<and> decoded file = Some content \<and>
         parse_mui_file E \<lparr>translatable_texts = [], original_structure = None\<rparr> content =
           Inr (st, nodes) \<and>
         nodes \<noteq> [] \<and> CLAUDE_API_KEY E = Some key \<and> key \<noteq> [] \<and>
         snd (translate_mui_file E files) = [map original_text nodes]"
    by (auto simp: translate_mui_file_def translate_texts_def Let_def
        split: option.splits if_splits sum.splits prod.splits)
next
  assume "files = Some upl \<and> filename upl \<noteq> [] \<and> suffix (u ''.mui'') (lower (filename upl)) \<and>
    decoded upl = Some content"
    and "parse_mui_file E \<lparr>translatable_texts = [], original_structure = None\<rparr> content = Inl e"
  then show "translate_mui_file E files = (JsonError 500 (Raised InvalidMuiFormat), [])"
    using parse_mui_file_cases[of E "\<lparr>translatable_texts = [], original_structure = None\<rparr>" content]
    by (auto simp: translate_mui_file_def)
next
  assume "files = Some upl \<and> filename upl \<noteq> [] \<and> suffix (u ''.mui'') (lower (filename upl)) \<and>
    decoded upl = Some content"
    and "parse_mui_file E \<lparr>translatable_texts = [], original_structure = None\<rparr> content = Inr (st, [])"
  then show "translate_mui_file E files = (JsonError 400 NoTexts, [])"
    by (simp add: translate_mui_file_def)
next
  assume "files = Some upl \<and> filename upl \<noteq> [] \<and> suffix (u ''.mui'') (lower (filename upl)) \<and>
    decoded upl = Some content"
    and "parse_mui_file E \<lparr>translatable_texts = [], original_structure = None\<rparr> content =
         Inr (st, n # ns) \<and> (CLAUDE_API_KEY E = None \<or> CLAUDE_API_KEY E = Some [])"
  then show "translate_mui_file E files = (JsonError 500 (Raised NoApiKey), [])"
    by (auto simp: translate_mui_file_def translate_texts_def)
next
  assume "CLAUDE_API_KEY E = None \<or> CLAUDE_API_KEY E = Some []"
  then show "translate_texts E nodes = (Inl NoApiKey, [])"
    by (auto simp: translate_texts_def)
qed

lemma translate_mui_file_calls:
  assumes "filename file \<noteq> []" "suffix (u ''.mui'') (lower (filename file))"
    and "decoded file = Some content"
    and "parse_mui_file E \<lparr>translatable_texts = [], original_structure = None\<rparr> content =
           Inr (st, n # ns)"
  shows "snd (translate_mui_file E (Some file)) = snd (translate_texts E (n # ns))"
  using assms
  by (auto simp: translate_mui_file_def split: sum.splits prod.splits)

lemma mui_upload_ok:
  "filename mui_upload \<noteq> [] \<and> suffix (u ''.mui'') (lower (filename mui_upload)) \<and>
   decoded mui_upload = Some pierce_doc"
  by (simp add: mui_upload_def lower_def rng_def u_def suffix_to_prefix)

lemma ids_upload_ok:
  "filename ids_upload \<noteq> [] \<and> suffix (u ''.mui'') (lower (filename ids_upload)) \<and>
   decoded ids_upload = Some ids_doc"
  by (simp add: ids_upload_def lower_def rng_def u_def suffix_to_prefix)

lemma pierce_parse:
  assumes "ET_fromstring E pierce_doc = Some pierce_tree"
  shows "parse_mui_file E \<lparr>translatable_texts = [], original_structure = None\<rparr> pierce_doc =
     Inr (\<lparr>translatable_texts = [pierce_node, laser_node], original_structure = Some pierce_doc\<rparr>,
          [pierce_node, laser_node])"
  using assms
  by (simp add: parse_mui_file_def Let_def pierce_doc_no_bom pierce_extract pierce_node_def
      laser_node_def)

lemma ids_parse:
  "parse_mui_file ids_env \<lparr>translatable_texts = [], original_structure = None\<rparr> ids_doc =
     Inr (\<lparr>translatable_texts = [], original_structure = Some ids_doc\<rparr>, [])"
proof -
  have "remove_char BOM (if prefix [BOM] ids_doc then drop 1 ids_doc else ids_doc) = ids_doc"
    by (simp add: ids_doc_def remove_char_def BOM_def u_def)
  moreover have "extract_texts ids_env ids_tree [] = []"
    by (simp add: ids_tree_def emit_def child_path_def strip_defs classifier_defs)
  ultimately show ?thesis
    by (simp add: parse_mui_file_def Let_def ids_env_def)
qed

theorem no_call_on_early_failure_witness:
  "snd (translate_mui_file service_env (Some mui_upload)) =
     [[u ''Pierce Method'', u ''Laser Type'']] \<and>
   translate_mui_file pierce_env (Some mui_upload) = (JsonError 500 (Raised NoApiKey), []) \<and>
   translate_mui_file plain_env (Some mui_upload) = (JsonError 500 (Raised InvalidMuiFormat), []) \<and>
   translate_mui_file ids_env (Some ids_upload) = (JsonError 400 NoTexts, [])"
proof -
  let ?fresh = "\<lparr>translatable_texts = [], original_structure = None\<rparr>"
  let ?st = "\<lparr>translatable_texts = [pierce_node, laser_node], original_structure = Some pierce_doc\<rparr>"
  have p1: "parse_mui_file pierce_env ?fresh pierce_doc = Inr (?st, [pierce_node, laser_node])"
    by (rule pierce_parse) (simp add: pierce_env_def)
  have p2: "parse_mui_file service_env ?fresh pierce_doc = Inr (?st, [pierce_node, laser_node])"
    by (rule pierce_parse) (simp add: service_env_def pierce_env_def)
  have p0: "parse_mui_file plain_env ?fresh pierce_doc = Inl InvalidMuiFormat"
    by (simp add: parse_mui_file_def Let_def plain_env_def)
  have k1: "CLAUDE_API_KEY pierce_env = None"
    by (simp add: pierce_env_def plain_env_def)
  have k2: "CLAUDE_API_KEY service_env = Some (u ''secret'')"
    by (simp add: service_env_def)
  have "snd (translate_mui_file service_env (Some mui_upload)) =
      snd (translate_texts service_env [pierce_node, laser_node])"
    using mui_upload_ok p2 by (intro translate_mui_file_calls) auto
  then have a: "snd (translate_mui_file service_env (Some mui_upload)) =
      [[u ''Pierce Method'', u ''Laser Type'']]"
    using k2 secret_nonempty
    by (simp add: translate_texts_calls pierce_node_def laser_node_def)
  have b: "translate_mui_file pierce_env (Some mui_upload) = (JsonError 500 (Raised NoApiKey), [])"
    using no_call_on_early_failure [where E = pierce_env and files = "Some mui_upload"
        and upl = mui_upload and content = pierce_doc and st = ?st and n = pierce_node
        and ns = "[laser_node]"] mui_upload_ok p1 k1
    by simp
  have c: "translate_mui_file plain_env (Some mui_upload) =
      (JsonError 500 (Raised InvalidMuiFormat), [])"
    using no_call_on_early_failure [where E = plain_env and files = "Some mui_upload"
        and upl = mui_upload and content = pierce_doc and e = InvalidMuiFormat]
      mui_upload_ok p0
    by simp
  have d: "translate_mui_file ids_env (Some ids_upload) = (JsonError 400 NoTexts, [])"
    using no_call_on_early_failure [where E = ids_env and files = "Some ids_upload"
        and upl = ids_upload and content = ids_doc
        and st = "\<lparr>translatable_texts = [], original_structure = Some ids_doc\<rparr>"]
      ids_upload_ok ids_parse
    by simp
  from a b c d show ?thesis by simp
qed

end
